theory Spec2Isabelle
  imports Complex_Main "HOL-Library.Word"
begin

section \<open>The ReLU constraint of the Reluplex engine (src/reluplex/ReluConstraint.cpp)\<close>

text \<open>
  A \<open>ReluConstraint\<close> watches two tableau variables \<open>b\<close> and \<open>f\<close> and stands for the
  relation \<open>f = max (0, b)\<close>. This theory embeds the class as it is written: its members
  as a record, its methods as functions on that record (and on the tableau it points to),
  every \<open>throw\<close> and every failed \<open>ASSERT\<close> as an error value.

  Conventions of the embedding.
  \<^item> C++ \<open>unsigned\<close> variable ids are 32-bit words; they are only compared and used as keys.
  \<^item> C++ \<open>double\<close> values are modelled as \<open>real\<close>. ReluConstraint.cpp performs no
    arithmetic on them: it stores them, copies them into fixes, and hands them to the
    three \<open>FloatUtils\<close> predicates, which are a parameter of the model.
  \<^item> Members \<open>_b\<close>, \<open>_f\<close>, ... are written \<open>m_b\<close>, \<open>m_f\<close>, ... (an Isabelle name cannot
    start with an underscore).
\<close>

subsection \<open>Collaborators that are not part of the sources\<close>

type_synonym variable = "32 word"

text \<open>
  Modelled from the spec: \<open>FloatUtils\<close> (FloatUtils.h is not part of the sources). The
  constraint calls \<open>FloatUtils::isPositive\<close>, \<open>FloatUtils::isNegative\<close> and
  \<open>FloatUtils::areEqual\<close>; the three predicates are taken as a parameter.
\<close>

record FloatUtils =
  isPositive :: "real \<Rightarrow> bool"
  isNegative :: "real \<Rightarrow> bool"
  areEqual :: "real \<Rightarrow> real \<Rightarrow> bool"

text \<open>
  Modelled from the spec: the comparisons "within the system's floating-point equality
  tolerance", for a tolerance \<open>epsilon\<close>: a value is strictly positive when it exceeds
  the tolerance, strictly negative when it is below minus the tolerance, and two values
  are equal when they differ by at most the tolerance.
\<close>

definition toleranceFloatUtils :: "real \<Rightarrow> FloatUtils" where
  "toleranceFloatUtils epsilon =
     \<lparr> isPositive = (\<lambda>x. epsilon < x),
       isNegative = (\<lambda>x. x < - epsilon),
       areEqual = (\<lambda>x y. \<bar>x - y\<bar> \<le> epsilon) \<rparr>"

text \<open>
  What the repair logic needs of the comparisons: a strictly positive value equals itself
  and is not strictly negative, and zero is neither strictly positive nor strictly negative.
\<close>

definition coherent :: "FloatUtils \<Rightarrow> bool" where
  "coherent fu \<longleftrightarrow>
     (\<forall>x. isPositive fu x \<longrightarrow> areEqual fu x x \<and> \<not> isNegative fu x) \<and>
     \<not> isPositive fu 0 \<and> \<not> isNegative fu 0"

text \<open>
  Modelled from the spec: \<open>Tightening\<close> (Tightening.h is not part of the sources), an
  immutable triple (variable, value, kind) with kind a lower or an upper bound.
\<close>

datatype BoundType = LB | UB

datatype Tightening = Tightening variable real BoundType

text \<open>
  Modelled from the spec: \<open>Equation\<close> (Equation.h is not part of the sources), a linear
  equality assembled by \<open>addAddend\<close>, \<open>markAuxiliaryVariable\<close> and \<open>setScalar\<close>.
\<close>

record Equation =
  addends :: "(real \<times> variable) list"
  auxVariable :: "variable option"
  scalar :: real

definition newEquation :: Equation where
  "newEquation = \<lparr> addends = [], auxVariable = None, scalar = 0 \<rparr>"

definition addAddend :: "real \<Rightarrow> variable \<Rightarrow> Equation \<Rightarrow> Equation" where
  "addAddend coefficient var e = e\<lparr> addends := addends e @ [(coefficient, var)] \<rparr>"

definition markAuxiliaryVariable :: "variable \<Rightarrow> Equation \<Rightarrow> Equation" where
  "markAuxiliaryVariable var e = e\<lparr> auxVariable := Some var \<rparr>"

definition setScalar :: "real \<Rightarrow> Equation \<Rightarrow> Equation" where
  "setScalar x e = e\<lparr> scalar := x \<rparr>"

text \<open>
  Modelled from the spec: \<open>PiecewiseLinearCaseSplit\<close> (PiecewiseLinearCaseSplit.h is not
  part of the sources), the container of the tightenings and equations of one phase.
\<close>

record PiecewiseLinearCaseSplit =
  boundTightenings :: "Tightening list"
  equations :: "Equation list"

definition newCaseSplit :: PiecewiseLinearCaseSplit where
  "newCaseSplit = \<lparr> boundTightenings = [], equations = [] \<rparr>"

definition storeBoundTightening ::
  "Tightening \<Rightarrow> PiecewiseLinearCaseSplit \<Rightarrow> PiecewiseLinearCaseSplit" where
  "storeBoundTightening t p = p\<lparr> boundTightenings := boundTightenings p @ [t] \<rparr>"

definition addEquation ::
  "Equation \<Rightarrow> PiecewiseLinearCaseSplit \<Rightarrow> PiecewiseLinearCaseSplit" where
  "addEquation e p = p\<lparr> equations := equations p @ [e] \<rparr>"

text \<open>
  Modelled from the spec: the tableau behind \<open>ITableau\<close> (only its interface is used by
  the sources). It is modelled as a recorder of the three calls the constraint makes:
  the variables this constraint watches, and the case splits applied, in call order.
  A handler of the constraint calls \<open>applySplit\<close> as its last statement, so whatever a
  tableau notifies from inside \<open>applySplit\<close> reaches the constraint with the handler's own
  updates complete, as a later call of a sequence does.
\<close>

record ITableau =
  watchers :: "variable list"
  appliedSplits :: "PiecewiseLinearCaseSplit list"

definition registerToWatchVariable :: "variable \<Rightarrow> ITableau \<Rightarrow> ITableau" where
  "registerToWatchVariable var t = t\<lparr> watchers := watchers t @ [var] \<rparr>"

definition unregisterToWatchVariable :: "variable \<Rightarrow> ITableau \<Rightarrow> ITableau" where
  "unregisterToWatchVariable var t = t\<lparr> watchers := remove1 var (watchers t) \<rparr>"

definition applySplit :: "PiecewiseLinearCaseSplit \<Rightarrow> ITableau \<Rightarrow> ITableau" where
  "applySplit split t = t\<lparr> appliedSplits := appliedSplits t @ [split] \<rparr>"

type_synonym tableau_ptr = nat

text \<open>
  Modelled from the spec: the \<open>ASSERT\<close> macro (Debug.h is not part of the sources). A
  failed assertion is fatal: the call does not return and no state survives it. An
  exception thrown while the asserted condition is evaluated propagates as it is.
\<close>

datatype error =
    PARTICIPATING_VARIABLES_ABSENT
  | ASSERTION_VIOLATION
  | INDEX_OUT_OF_RANGE

text \<open>Reading \<open>xs[i]\<close>; an index beyond the end is an error of its own.\<close>

definition elementAt :: "'a list \<Rightarrow> nat \<Rightarrow> error + 'a" where
  "elementAt xs i = (if i < length xs then Inr (xs ! i) else Inl INDEX_OUT_OF_RANGE)"

subsection \<open>The class\<close>

record ReluConstraint =
  m_b :: variable
  m_f :: variable
  m_splits :: "PiecewiseLinearCaseSplit list"
  m_validSplits :: "PiecewiseLinearCaseSplit list"
  m_tableau :: "tableau_ptr option"
  m_assignment :: "variable \<rightharpoonup> real"
  m_lowerBounds :: "variable \<rightharpoonup> real"
  m_upperBounds :: "variable \<rightharpoonup> real"

datatype Fix = Fix variable real

text \<open>The constraint together with the tableaux its pointer may refer to.\<close>

record System =
  constraint :: ReluConstraint
  tableaux :: "tableau_ptr \<Rightarrow> ITableau"

text \<open>
  The constructor. \<open>auxVariable\<close> is the id returned by
  \<open>FreshVariables::getNextVariable()\<close> (the allocator is not part of the sources).
  The active phase is \<open>b \<ge> 0, b - f + aux = 0\<close>; the inactive phase is
  \<open>b \<le> 0, f + aux = 0\<close>; both pin the auxiliary variable to zero.
\<close>

definition activePhase :: "variable \<Rightarrow> variable \<Rightarrow> variable \<Rightarrow> PiecewiseLinearCaseSplit" where
  "activePhase b f auxVar =
     (let auxUpperBound = Tightening auxVar 0 UB;
          auxLowerBound = Tightening auxVar 0 LB;
          activeBound = Tightening b 0 LB;
          activeEquation =
            setScalar 0 (markAuxiliaryVariable auxVar
              (addAddend 1 auxVar (addAddend (- 1) f (addAddend 1 b newEquation))))
      in storeBoundTightening auxLowerBound
           (storeBoundTightening auxUpperBound
             (addEquation activeEquation
               (storeBoundTightening activeBound newCaseSplit))))"

definition inactivePhase :: "variable \<Rightarrow> variable \<Rightarrow> variable \<Rightarrow> PiecewiseLinearCaseSplit" where
  "inactivePhase b f auxVar =
     (let auxUpperBound = Tightening auxVar 0 UB;
          auxLowerBound = Tightening auxVar 0 LB;
          inactiveBound = Tightening b 0 UB;
          inactiveEquation =
            setScalar 0 (markAuxiliaryVariable auxVar
              (addAddend 1 auxVar (addAddend 1 f newEquation)))
      in storeBoundTightening auxLowerBound
           (storeBoundTightening auxUpperBound
             (addEquation inactiveEquation
               (storeBoundTightening inactiveBound newCaseSplit))))"

definition newReluConstraint :: "variable \<Rightarrow> variable \<Rightarrow> variable \<Rightarrow> ReluConstraint" where
  "newReluConstraint b f auxVar =
     (let splits = [] @ [activePhase b f auxVar] @ [inactivePhase b f auxVar]
      in \<lparr> m_b = b, m_f = f,
           m_splits = splits,
           m_validSplits = [] @ [splits ! 0] @ [splits ! 1],
           m_tableau = None,
           m_assignment = Map.empty,
           m_lowerBounds = Map.empty,
           m_upperBounds = Map.empty \<rparr>)"

text \<open>\<open>registerAsWatcher\<close> and \<open>unregisterAsWatcher\<close>.\<close>

definition registerAsWatcher :: "tableau_ptr \<Rightarrow> System \<Rightarrow> error + System" where
  "registerAsWatcher tableau s =
     (let c = constraint s
      in Inr \<lparr> constraint = c\<lparr> m_tableau := Some tableau \<rparr>,
               tableaux = (tableaux s)(tableau :=
                 registerToWatchVariable (m_f c)
                   (registerToWatchVariable (m_b c) (tableaux s tableau))) \<rparr>)"

definition unregisterAsWatcher :: "tableau_ptr \<Rightarrow> System \<Rightarrow> error + System" where
  "unregisterAsWatcher tableau s =
     (let c = constraint s
      in if m_tableau c \<noteq> Some tableau then Inl ASSERTION_VIOLATION
         else Inr \<lparr> constraint = c\<lparr> m_tableau := None \<rparr>,
                    tableaux = (tableaux s)(tableau :=
                      unregisterToWatchVariable (m_f c)
                        (unregisterToWatchVariable (m_b c) (tableaux s tableau))) \<rparr>)"

text \<open>The three notifications.\<close>

definition notifyVariableValue :: "variable \<Rightarrow> real \<Rightarrow> ReluConstraint \<Rightarrow> ReluConstraint" where
  "notifyVariableValue var val c = c\<lparr> m_assignment := (m_assignment c)(var \<mapsto> val) \<rparr>"

text \<open>
  The body shared by the two bound notifications once their condition holds: the valid
  splits become the single split \<open>_splits[i]\<close>, the tableau pointer is asserted, and the
  split is applied to the tableau.
\<close>

definition stuckInPhase :: "nat \<Rightarrow> ReluConstraint \<Rightarrow> System \<Rightarrow> error + System" where
  "stuckInPhase i c s =
     (case elementAt (m_splits c) i of
        Inl e \<Rightarrow> Inl e
      | Inr split \<Rightarrow>
          (let c' = c\<lparr> m_validSplits := [] @ [split] \<rparr>
           in case m_tableau c' of
                None \<Rightarrow> Inl ASSERTION_VIOLATION
              | Some t \<Rightarrow>
                  Inr \<lparr> constraint = c',
                        tableaux = (tableaux s)(t := applySplit split (tableaux s t)) \<rparr>))"

definition notifyLowerBound :: "FloatUtils \<Rightarrow> variable \<Rightarrow> real \<Rightarrow> System \<Rightarrow> error + System" where
  "notifyLowerBound fu var bound s =
     (let c = (constraint s)\<lparr> m_lowerBounds := (m_lowerBounds (constraint s))(var \<mapsto> bound) \<rparr>
      in if (var = m_b c \<or> var = m_f c) \<and> isPositive fu bound
         then stuckInPhase 0 c s
         else Inr (s\<lparr> constraint := c \<rparr>))"

definition notifyUpperBound :: "FloatUtils \<Rightarrow> variable \<Rightarrow> real \<Rightarrow> System \<Rightarrow> error + System" where
  "notifyUpperBound fu var bound s =
     (let c = (constraint s)\<lparr> m_upperBounds := (m_upperBounds (constraint s))(var \<mapsto> bound) \<rparr>
      in if var = m_f c \<and> isNegative fu bound
         then stuckInPhase 1 c s
         else Inr (s\<lparr> constraint := c \<rparr>))"

text \<open>The const methods.\<close>

definition participatingVariable :: "variable \<Rightarrow> ReluConstraint \<Rightarrow> bool" where
  "participatingVariable var c \<longleftrightarrow> var = m_b c \<or> var = m_f c"

definition getParticiatingVariables :: "ReluConstraint \<Rightarrow> variable list" where
  "getParticiatingVariables c = [m_b c, m_f c]"

definition satisfied :: "FloatUtils \<Rightarrow> ReluConstraint \<Rightarrow> error + bool" where
  "satisfied fu c =
     (case (m_assignment c (m_b c), m_assignment c (m_f c)) of
        (Some bValue, Some fValue) \<Rightarrow>
          if isNegative fu fValue then Inl ASSERTION_VIOLATION
          else if isPositive fu fValue then Inr (areEqual fu bValue fValue)
          else Inr (\<not> isPositive fu bValue)
      | _ \<Rightarrow> Inl PARTICIPATING_VARIABLES_ABSENT)"

definition getPossibleFixes :: "FloatUtils \<Rightarrow> ReluConstraint \<Rightarrow> error + Fix list" where
  "getPossibleFixes fu c =
     (case satisfied fu c of
        Inl e \<Rightarrow> Inl e
      | Inr True \<Rightarrow> Inl ASSERTION_VIOLATION
      | Inr False \<Rightarrow>
          (case m_assignment c (m_b c) of
             None \<Rightarrow> Inl ASSERTION_VIOLATION
           | Some bValue \<Rightarrow>
               (case m_assignment c (m_f c) of
                  None \<Rightarrow> Inl ASSERTION_VIOLATION
                | Some fValue \<Rightarrow>
                    if isNegative fu fValue then Inl ASSERTION_VIOLATION
                    else if isPositive fu fValue then
                      (if isPositive fu bValue
                       then Inr ([] @ [Fix (m_b c) fValue] @ [Fix (m_f c) bValue])
                       else Inr ([] @ [Fix (m_b c) fValue] @ [Fix (m_f c) 0]))
                    else Inr ([] @ [Fix (m_b c) 0] @ [Fix (m_f c) bValue]))))"

definition getCaseSplits :: "ReluConstraint \<Rightarrow> PiecewiseLinearCaseSplit list" where
  "getCaseSplits c = m_validSplits c"

subsection \<open>Sequences of calls\<close>

text \<open>
  The public methods as calls on a system. The const methods reply and
  leave the system as it is; the other methods reply \<open>Done\<close>.
\<close>

datatype call =
    RegisterAsWatcher tableau_ptr
  | UnregisterAsWatcher tableau_ptr
  | NotifyVariableValue variable real
  | NotifyLowerBound variable real
  | NotifyUpperBound variable real
  | ParticipatingVariable variable
  | GetParticiatingVariables
  | Satisfied
  | GetPossibleFixes
  | GetCaseSplits

datatype reply =
    Done
  | Truth bool
  | Variables "variable list"
  | Fixes "Fix list"
  | Splits "PiecewiseLinearCaseSplit list"

definition answer :: "('a \<Rightarrow> reply) \<Rightarrow> System \<Rightarrow> error + 'a \<Rightarrow> error + reply \<times> System" where
  "answer wrap s r = (case r of Inl e \<Rightarrow> Inl e | Inr x \<Rightarrow> Inr (wrap x, s))"

definition finished :: "error + System \<Rightarrow> error + reply \<times> System" where
  "finished r = (case r of Inl e \<Rightarrow> Inl e | Inr s' \<Rightarrow> Inr (Done, s'))"

fun exec :: "FloatUtils \<Rightarrow> call \<Rightarrow> System \<Rightarrow> error + reply \<times> System" where
  "exec fu (RegisterAsWatcher t) s = finished (registerAsWatcher t s)"
| "exec fu (UnregisterAsWatcher t) s = finished (unregisterAsWatcher t s)"
| "exec fu (NotifyVariableValue var val) s =
     finished (Inr (s\<lparr> constraint := notifyVariableValue var val (constraint s) \<rparr>))"
| "exec fu (NotifyLowerBound var bound) s = finished (notifyLowerBound fu var bound s)"
| "exec fu (NotifyUpperBound var bound) s = finished (notifyUpperBound fu var bound s)"
| "exec fu (ParticipatingVariable var) s =
     answer Truth s (Inr (participatingVariable var (constraint s)))"
| "exec fu GetParticiatingVariables s =
     answer Variables s (Inr (getParticiatingVariables (constraint s)))"
| "exec fu Satisfied s = answer Truth s (satisfied fu (constraint s))"
| "exec fu GetPossibleFixes s = answer Fixes s (getPossibleFixes fu (constraint s))"
| "exec fu GetCaseSplits s = answer Splits s (Inr (getCaseSplits (constraint s)))"

text \<open>A sequence of calls stops at the first error; it collects the replies.\<close>

fun run :: "FloatUtils \<Rightarrow> call list \<Rightarrow> System \<Rightarrow> error + reply list \<times> System" where
  "run fu [] s = Inr ([], s)"
| "run fu (x # xs) s =
     (case exec fu x s of
        Inl e \<Rightarrow> Inl e
      | Inr (r, s') \<Rightarrow>
          (case run fu xs s' of
             Inl e \<Rightarrow> Inl e
           | Inr (rs, s'') \<Rightarrow> Inr (r # rs, s'')))"

text \<open>A freshly constructed constraint, beside the tableaux \<open>T\<close>.\<close>

definition fresh :: "variable \<Rightarrow> variable \<Rightarrow> variable \<Rightarrow> (tableau_ptr \<Rightarrow> ITableau) \<Rightarrow> System" where
  "fresh b f auxVar T = \<lparr> constraint = newReluConstraint b f auxVar, tableaux = T \<rparr>"

subsection \<open>Notions used to state the properties\<close>

text \<open>
  Which calls are collapsing bound notifications, and to which split (as an index of
  \<open>_splits\<close>): a strictly positive lower bound on \<open>b\<close> or \<open>f\<close> collapses to split 0, a
  strictly negative upper bound on \<open>f\<close> to split 1.
\<close>

fun collapse :: "FloatUtils \<Rightarrow> variable \<Rightarrow> variable \<Rightarrow> call \<Rightarrow> nat option" where
  "collapse fu b f (NotifyLowerBound var bound) =
     (if (var = b \<or> var = f) \<and> isPositive fu bound then Some 0 else None)"
| "collapse fu b f (NotifyUpperBound var bound) =
     (if var = f \<and> isNegative fu bound then Some 1 else None)"
| "collapse fu b f _ = None"

text \<open>The collapses of a sequence of calls, in call order.\<close>

fun collapses :: "FloatUtils \<Rightarrow> variable \<Rightarrow> variable \<Rightarrow> call list \<Rightarrow> nat list" where
  "collapses fu b f [] = []"
| "collapses fu b f (x # xs) =
     (case collapse fu b f x of
        None \<Rightarrow> collapses fu b f xs
      | Some k \<Rightarrow> k # collapses fu b f xs)"

text \<open>Tableaux that have received no call yet.\<close>

definition noTableaux :: "tableau_ptr \<Rightarrow> ITableau" where
  "noTableaux = (\<lambda>_. \<lparr> watchers = [], appliedSplits = [] \<rparr>)"

text \<open>Observations of the outcome of a sequence of calls.\<close>

definition validSplitsAfter :: "error + 'r \<times> System \<Rightarrow> PiecewiseLinearCaseSplit list option" where
  "validSplitsAfter r = (case r of Inl e \<Rightarrow> None | Inr (rs, s) \<Rightarrow> Some (m_validSplits (constraint s)))"

definition appliedSplitsAfter ::
  "tableau_ptr \<Rightarrow> error + 'r \<times> System \<Rightarrow> PiecewiseLinearCaseSplit list option" where
  "appliedSplitsAfter t r =
     (case r of Inl e \<Rightarrow> None | Inr (rs, s) \<Rightarrow> Some (appliedSplits (tableaux s t)))"

text \<open>
  What the constructor establishes and every call keeps: the two variables, the two
  splits, and one or two valid splits.
\<close>

definition wellFormed :: "variable \<Rightarrow> variable \<Rightarrow> variable \<Rightarrow> System \<Rightarrow> bool" where
  "wellFormed b f a s \<longleftrightarrow>
     m_b (constraint s) = b \<and> m_f (constraint s) = f \<and>
     m_splits (constraint s) = [activePhase b f a, inactivePhase b f a] \<and>
     m_validSplits (constraint s) \<noteq> [] \<and> length (m_validSplits (constraint s)) \<le> 2"


text \<open>
  The table of violation shapes of the specification (its section 4.5), for comparison
  with \<open>getPossibleFixes\<close>: the condition of each shape and the two fixes of its row.
  "Positive" and "negative" are the comparisons of \<open>FloatUtils\<close>; "zero" is neither.
\<close>

datatype shape = BothPositiveUnequal | PositiveOutputNonPositiveInput | ZeroOutputPositiveInput

fun hasShape :: "FloatUtils \<Rightarrow> real \<Rightarrow> real \<Rightarrow> shape \<Rightarrow> bool" where
  "hasShape fu bValue fValue BothPositiveUnequal \<longleftrightarrow>
     isPositive fu fValue \<and> isPositive fu bValue \<and> \<not> areEqual fu bValue fValue"
| "hasShape fu bValue fValue PositiveOutputNonPositiveInput \<longleftrightarrow>
     isPositive fu fValue \<and> \<not> isPositive fu bValue"
| "hasShape fu bValue fValue ZeroOutputPositiveInput \<longleftrightarrow>
     \<not> isPositive fu fValue \<and> \<not> isNegative fu fValue \<and> isPositive fu bValue"

fun tableFixes :: "shape \<Rightarrow> variable \<Rightarrow> variable \<Rightarrow> real \<Rightarrow> real \<Rightarrow> Fix list" where
  "tableFixes BothPositiveUnequal b f bValue fValue = [Fix b fValue, Fix f bValue]"
| "tableFixes PositiveOutputNonPositiveInput b f bValue fValue = [Fix b fValue, Fix f 0]"
| "tableFixes ZeroOutputPositiveInput b f bValue fValue = [Fix b 0, Fix f bValue]"

text \<open>
  Applying a fix: the suggested value is notified for the named variable; the other
  variable keeps its cached value.
\<close>

fun applyFix :: "Fix \<Rightarrow> ReluConstraint \<Rightarrow> ReluConstraint" where
  "applyFix (Fix var val) c = notifyVariableValue var val c"

text \<open>The calls that are value notifications.\<close>

fun isValueNotification :: "call \<Rightarrow> bool" where
  "isValueNotification (NotifyVariableValue var val) = True"
| "isValueNotification _ = False"

text \<open>A concrete tolerance, for the examples.\<close>

definition exampleFloatUtils :: FloatUtils where
  "exampleFloatUtils = toleranceFloatUtils (1 / 1000)"

text \<open>A constraint on variables 1 and 2 with cached values \<open>b = 3\<close>, \<open>f = 5\<close>.\<close>

definition exampleConstraint :: ReluConstraint where
  "exampleConstraint = notifyVariableValue 2 5 (notifyVariableValue 1 3 (newReluConstraint 1 2 3))"

section \<open>Properties\<close>

subsection \<open>Auxiliary facts\<close>

lemma tol_coherent: "0 \<le> eps \<Longrightarrow> coherent (toleranceFloatUtils eps)"
  by (simp add: coherent_def toleranceFloatUtils_def)

lemma phases_differ: "activePhase b f a \<noteq> inactivePhase b f a"
  by (simp add: activePhase_def inactivePhase_def storeBoundTightening_def addEquation_def newCaseSplit_def)

lemma newReluConstraint_simps:
  "m_b (newReluConstraint b f a) = b"
  "m_f (newReluConstraint b f a) = f"
  "m_splits (newReluConstraint b f a) = [activePhase b f a, inactivePhase b f a]"
  "m_validSplits (newReluConstraint b f a) = [activePhase b f a, inactivePhase b f a]"
  "m_tableau (newReluConstraint b f a) = None"
  "m_assignment (newReluConstraint b f a) = Map.empty"
  "m_lowerBounds (newReluConstraint b f a) = Map.empty"
  "m_upperBounds (newReluConstraint b f a) = Map.empty"
  by (simp_all add: newReluConstraint_def Let_def)

lemma notifyVariableValue_simps:
  "m_b (notifyVariableValue var val c) = m_b c"
  "m_f (notifyVariableValue var val c) = m_f c"
  "m_splits (notifyVariableValue var val c) = m_splits c"
  "m_validSplits (notifyVariableValue var val c) = m_validSplits c"
  "m_tableau (notifyVariableValue var val c) = m_tableau c"
  "m_assignment (notifyVariableValue var val c) = (m_assignment c)(var \<mapsto> val)"
  "m_lowerBounds (notifyVariableValue var val c) = m_lowerBounds c"
  "m_upperBounds (notifyVariableValue var val c) = m_upperBounds c"
  by (simp_all add: notifyVariableValue_def)

lemma wellFormed_fresh: "wellFormed b f a (fresh b f a T)"
  by (simp add: wellFormed_def fresh_def newReluConstraint_simps)

text \<open>What one call does to the valid splits, and what it leaves alone.\<close>

lemma stuckInPhase_Inr:
  assumes "stuckInPhase i c s = Inr s'"
  shows "i < length (m_splits c) \<and>
         constraint s' = c\<lparr> m_validSplits := [m_splits c ! i] \<rparr> \<and>
         (\<exists>t. m_tableau c = Some t \<and>
              tableaux s' = (tableaux s)(t := applySplit (m_splits c ! i) (tableaux s t)))"
  using assms
  by (auto simp: stuckInPhase_def elementAt_def Let_def split: if_splits option.splits)

lemma exec_frame:
  assumes "exec fu x s = Inr (r, s')"
  shows "m_b (constraint s') = m_b (constraint s) \<and>
         m_f (constraint s') = m_f (constraint s) \<and>
         m_splits (constraint s') = m_splits (constraint s)"
proof (cases x)
  case (NotifyLowerBound var bound)
  with assms show ?thesis
    by (auto simp: finished_def notifyLowerBound_def Let_def
             split: sum.splits if_splits dest!: stuckInPhase_Inr)
next
  case (NotifyUpperBound var bound)
  with assms show ?thesis
    by (auto simp: finished_def notifyUpperBound_def Let_def
             split: sum.splits if_splits dest!: stuckInPhase_Inr)
qed (use assms in \<open>auto simp: finished_def answer_def registerAsWatcher_def
       unregisterAsWatcher_def notifyVariableValue_def Let_def split: sum.splits if_splits\<close>)

lemma exec_validSplits:
  assumes "exec fu x s = Inr (r, s')"
  shows "m_validSplits (constraint s') =
           (case collapse fu (m_b (constraint s)) (m_f (constraint s)) x of
              None \<Rightarrow> m_validSplits (constraint s)
            | Some k \<Rightarrow> [m_splits (constraint s) ! k])"
proof (cases x)
  case (NotifyLowerBound var bound)
  with assms show ?thesis
    by (auto simp: finished_def notifyLowerBound_def Let_def
             split: sum.splits if_splits dest!: stuckInPhase_Inr)
next
  case (NotifyUpperBound var bound)
  with assms show ?thesis
    by (auto simp: finished_def notifyUpperBound_def Let_def
             split: sum.splits if_splits dest!: stuckInPhase_Inr)
qed (use assms in \<open>auto simp: finished_def answer_def registerAsWatcher_def
       unregisterAsWatcher_def notifyVariableValue_def Let_def split: sum.splits if_splits\<close>)

lemma exec_applied:
  assumes "exec fu x s = Inr (r, s')"
    and "collapse fu (m_b (constraint s)) (m_f (constraint s)) x = Some k"
  shows "k < length (m_splits (constraint s)) \<and>
         (\<exists>t. m_tableau (constraint s) = Some t \<and> m_tableau (constraint s') = Some t \<and>
              tableaux s' = (tableaux s)(t := applySplit (m_splits (constraint s) ! k) (tableaux s t)))"
proof (cases x)
  case (NotifyLowerBound var bound)
  with assms show ?thesis
    by (auto simp: finished_def notifyLowerBound_def Let_def
             split: sum.splits if_splits dest!: stuckInPhase_Inr)
next
  case (NotifyUpperBound var bound)
  with assms show ?thesis
    by (auto simp: finished_def notifyUpperBound_def Let_def
             split: sum.splits if_splits dest!: stuckInPhase_Inr)
qed (use assms in \<open>auto\<close>)

lemma exec_assignment:
  assumes "exec fu x s = Inr (r, s')" and "\<not> isValueNotification x"
  shows "m_assignment (constraint s') = m_assignment (constraint s)"
proof (cases x)
  case (NotifyLowerBound var bound)
  with assms show ?thesis
    by (auto simp: finished_def notifyLowerBound_def Let_def
             split: sum.splits if_splits dest!: stuckInPhase_Inr)
next
  case (NotifyUpperBound var bound)
  with assms show ?thesis
    by (auto simp: finished_def notifyUpperBound_def Let_def
             split: sum.splits if_splits dest!: stuckInPhase_Inr)
qed (use assms in \<open>auto simp: finished_def answer_def registerAsWatcher_def
       unregisterAsWatcher_def Let_def split: sum.splits if_splits\<close>)

lemma collapse_range: "collapse fu b f x = Some k \<Longrightarrow> k = 0 \<or> k = 1"
  by (cases x) (auto split: if_splits)

lemma exec_wellFormed:
  assumes "exec fu x s = Inr (r, s')" and "wellFormed b f a s"
  shows "wellFormed b f a s'"
  using exec_frame [OF assms(1)] exec_validSplits [OF assms(1)] assms(2)
  by (auto simp: wellFormed_def split: option.splits)

lemma exec_length_validSplits:
  assumes "exec fu x s = Inr (r, s')" and "wellFormed b f a s"
  shows "length (m_validSplits (constraint s')) \<le> length (m_validSplits (constraint s))"
proof -
  from assms(2) have "1 \<le> length (m_validSplits (constraint s))"
    by (cases "m_validSplits (constraint s)") (simp_all add: wellFormed_def)
  with exec_validSplits [OF assms(1)] show ?thesis
    by (simp split: option.splits)
qed

lemma run_Cons_Inr:
  "run fu (x # xs) s = Inr (rs, s'') \<longleftrightarrow>
     (\<exists>r s' rs'. exec fu x s = Inr (r, s') \<and> run fu xs s' = Inr (rs', s'') \<and> rs = r # rs')"
  by (auto split: sum.splits)

lemma run_wellFormed:
  "run fu xs s = Inr (rs, s') \<Longrightarrow> wellFormed b f a s \<Longrightarrow> wellFormed b f a s'"
proof (induction xs arbitrary: s rs)
  case Nil
  then show ?case by simp
next
  case (Cons x xs)
  from Cons.prems(1) obtain r s1 rs' where
    x: "exec fu x s = Inr (r, s1)" and xs: "run fu xs s1 = Inr (rs', s')"
    unfolding run_Cons_Inr by blast
  from exec_wellFormed [OF x Cons.prems(2)] Cons.IH [OF xs] show ?case by simp
qed

lemma run_frame:
  "run fu xs s = Inr (rs, s') \<Longrightarrow>
   m_b (constraint s') = m_b (constraint s) \<and>
   m_f (constraint s') = m_f (constraint s) \<and>
   m_splits (constraint s') = m_splits (constraint s)"
proof (induction xs arbitrary: s rs)
  case Nil
  then show ?case by simp
next
  case (Cons x xs)
  from Cons.prems obtain r s1 rs' where
    x: "exec fu x s = Inr (r, s1)" and xs: "run fu xs s1 = Inr (rs', s')"
    unfolding run_Cons_Inr by blast
  from exec_frame [OF x] Cons.IH [OF xs] show ?case by simp
qed

lemma run_assignment:
  "run fu xs s = Inr (rs, s') \<Longrightarrow> \<forall>x\<in>set xs. \<not> isValueNotification x \<Longrightarrow>
   m_assignment (constraint s') = m_assignment (constraint s)"
proof (induction xs arbitrary: s rs)
  case Nil
  then show ?case by simp
next
  case (Cons x xs)
  from Cons.prems(1) obtain r s1 rs' where
    x: "exec fu x s = Inr (r, s1)" and xs: "run fu xs s1 = Inr (rs', s')"
    unfolding run_Cons_Inr by blast
  from Cons.prems(2) have "\<not> isValueNotification x" "\<forall>y\<in>set xs. \<not> isValueNotification y"
    by simp_all
  with exec_assignment [OF x] Cons.IH [OF xs] show ?case by simp
qed

lemma collapses_set: "k \<in> set (collapses fu b f xs) \<Longrightarrow> \<exists>x\<in>set xs. collapse fu b f x = Some k"
  by (induction xs) (auto split: option.splits)

lemma collapses_append:
  "collapses fu b f (xs @ ys) = collapses fu b f xs @ collapses fu b f ys"
  by (induction xs) (simp_all split: option.splits)

lemma run_validSplits:
  "run fu xs s = Inr (rs, s') \<Longrightarrow>
   m_validSplits (constraint s') =
     (if collapses fu (m_b (constraint s)) (m_f (constraint s)) xs = []
      then m_validSplits (constraint s)
      else [m_splits (constraint s) !
              last (collapses fu (m_b (constraint s)) (m_f (constraint s)) xs)])"
proof (induction xs arbitrary: s rs)
  case Nil
  then show ?case by simp
next
  case (Cons x xs)
  from Cons.prems obtain r s1 rs' where
    x: "exec fu x s = Inr (r, s1)" and xs: "run fu xs s1 = Inr (rs', s')"
    unfolding run_Cons_Inr by blast
  from exec_frame [OF x] exec_validSplits [OF x] Cons.IH [OF xs] show ?case
    by (simp split: option.splits)
qed

lemma run_length_validSplits:
  "run fu xs s = Inr (rs, s') \<Longrightarrow> wellFormed b f a s \<Longrightarrow>
   length (m_validSplits (constraint s')) \<le> length (m_validSplits (constraint s))"
proof (induction xs arbitrary: s rs)
  case Nil
  then show ?case by simp
next
  case (Cons x xs)
  from Cons.prems(1) obtain r s1 rs' where
    x: "exec fu x s = Inr (r, s1)" and xs: "run fu xs s1 = Inr (rs', s')"
    unfolding run_Cons_Inr by blast
  from exec_length_validSplits [OF x Cons.prems(2)]
    Cons.IH [OF xs exec_wellFormed [OF x Cons.prems(2)]]
  show ?case by simp
qed

lemma run_replicate_GetCaseSplits:
  "run fu (replicate n GetCaseSplits) s =
     Inr (replicate n (Splits (m_validSplits (constraint s))), s)"
  by (induction n) (simp_all add: answer_def getCaseSplits_def)

lemma satisfied_Some:
  "m_assignment c (m_b c) = Some bValue \<Longrightarrow> m_assignment c (m_f c) = Some fValue \<Longrightarrow>
   satisfied fu c =
     (if isNegative fu fValue then Inl ASSERTION_VIOLATION
      else if isPositive fu fValue then Inr (areEqual fu bValue fValue)
      else Inr (\<not> isPositive fu bValue))"
  by (simp add: satisfied_def)

lemma satisfied_None:
  "m_assignment c (m_b c) = None \<or> m_assignment c (m_f c) = None \<Longrightarrow>
   satisfied fu c = Inl PARTICIPATING_VARIABLES_ABSENT"
  by (auto simp: satisfied_def split: option.splits)

lemma satisfied_Inr_cached:
  assumes "satisfied fu c = Inr v"
  obtains bValue fValue where "m_assignment c (m_b c) = Some bValue"
    and "m_assignment c (m_f c) = Some fValue" and "\<not> isNegative fu fValue"
  using assms by (auto simp: satisfied_def split: option.splits if_splits)

lemma getPossibleFixes_violated:
  assumes "satisfied fu c = Inr False"
    and "m_assignment c (m_b c) = Some bValue" and "m_assignment c (m_f c) = Some fValue"
  shows "getPossibleFixes fu c =
     Inr (if isPositive fu fValue
          then (if isPositive fu bValue
                then [Fix (m_b c) fValue, Fix (m_f c) bValue]
                else [Fix (m_b c) fValue, Fix (m_f c) 0])
          else [Fix (m_b c) 0, Fix (m_f c) bValue])"
  using assms by (auto simp: getPossibleFixes_def satisfied_def split: if_splits)

lemma getPossibleFixes_None:
  "m_assignment c (m_b c) = None \<or> m_assignment c (m_f c) = None \<Longrightarrow>
   getPossibleFixes fu c = Inl PARTICIPATING_VARIABLES_ABSENT"
  by (simp add: getPossibleFixes_def satisfied_None)

lemma queries_depend_on:
  assumes "m_b c' = m_b c" and "m_f c' = m_f c"
    and "m_assignment c' (m_b c) = m_assignment c (m_b c)"
    and "m_assignment c' (m_f c) = m_assignment c (m_f c)"
  shows "satisfied fu c' = satisfied fu c" and "getPossibleFixes fu c' = getPossibleFixes fu c"
  unfolding getPossibleFixes_def satisfied_def assms by (rule refl)+

subsection \<open>Evaluating the examples\<close>

lemma exampleFloatUtils_simps:
  "isPositive exampleFloatUtils x \<longleftrightarrow> 1 / 1000 < x"
  "isNegative exampleFloatUtils x \<longleftrightarrow> x < - (1 / 1000)"
  "areEqual exampleFloatUtils x y \<longleftrightarrow> \<bar>x - y\<bar> \<le> 1 / 1000"
  by (simp_all add: exampleFloatUtils_def toleranceFloatUtils_def)

lemma exampleFloatUtils_coherent: "coherent exampleFloatUtils"
  unfolding exampleFloatUtils_def by (rule tol_coherent) simp

lemma exampleConstraint_simps:
  "m_b exampleConstraint = 1"
  "m_f exampleConstraint = 2"
  "m_assignment exampleConstraint 1 = Some 3"
  "m_assignment exampleConstraint 2 = Some 5"
  by (simp_all add: exampleConstraint_def notifyVariableValue_simps newReluConstraint_simps)

lemma exampleConstraint_violated: "satisfied exampleFloatUtils exampleConstraint = Inr False"
  by (simp add: satisfied_Some [where bValue = 3 and fValue = 5]
        exampleConstraint_simps exampleFloatUtils_simps)

text \<open>The equations that evaluate a sequence of calls on concrete input.\<close>

lemmas eval_simps =
  fresh_def newReluConstraint_simps notifyVariableValue_simps exampleFloatUtils_simps
  registerAsWatcher_def unregisterAsWatcher_def notifyLowerBound_def notifyUpperBound_def
  stuckInPhase_def elementAt_def applySplit_def registerToWatchVariable_def
  unregisterToWatchVariable_def noTableaux_def finished_def answer_def Let_def
  validSplitsAfter_def appliedSplitsAfter_def

text \<open>Reading the outcome of a call or of a sequence of calls that did not fail.\<close>

lemma Inr_projr_pair: "\<not> isl r \<Longrightarrow> r = Inr (fst (projr r), snd (projr r))"
  by (cases r) simp_all

lemma validSplitsAfter_projr:
  "\<not> isl r \<Longrightarrow> validSplitsAfter r = Some (m_validSplits (constraint (snd (projr r))))"
  by (cases r) (auto simp: validSplitsAfter_def)

lemma appliedSplitsAfter_projr:
  "\<not> isl r \<Longrightarrow> appliedSplitsAfter t r = Some (appliedSplits (tableaux (snd (projr r)) t))"
  by (cases r) (auto simp: appliedSplitsAfter_def)

subsection \<open>The satisfaction check\<close>

text \<open>
  Claim C1. When both \<open>b\<close> and \<open>f\<close> have a cached value and the value of \<open>f\<close> is not
  negative, \<open>satisfied()\<close> returns (without error) the truth value of: if \<open>f\<close> is
  positive then \<open>b\<close> equals \<open>f\<close> (by \<open>FloatUtils::areEqual\<close>), and if \<open>f\<close> is not positive
  then \<open>b\<close> is not positive.
\<close>

theorem satisfied_decision:
  assumes "m_assignment c (m_b c) = Some bValue"
    and "m_assignment c (m_f c) = Some fValue"
    and "\<not> isNegative fu fValue"
  shows "satisfied fu c =
           Inr ((isPositive fu fValue \<longrightarrow> areEqual fu bValue fValue) \<and>
                (\<not> isPositive fu fValue \<longrightarrow> \<not> isPositive fu bValue))"
  using assms by (simp add: satisfied_Some)

text \<open>Values \<open>b = 3\<close>, \<open>f = 5\<close>: not satisfied.\<close>

theorem satisfied_decision_witness:
  "m_assignment (notifyVariableValue 2 5 (notifyVariableValue 1 3 (newReluConstraint 1 2 3)))
     (m_b (notifyVariableValue 2 5 (notifyVariableValue 1 3 (newReluConstraint 1 2 3)))) = Some 3 \<and>
   m_assignment (notifyVariableValue 2 5 (notifyVariableValue 1 3 (newReluConstraint 1 2 3)))
     (m_f (notifyVariableValue 2 5 (notifyVariableValue 1 3 (newReluConstraint 1 2 3)))) = Some 5 \<and>
   \<not> isNegative exampleFloatUtils 5 \<and>
   satisfied exampleFloatUtils
     (notifyVariableValue 2 5 (notifyVariableValue 1 3 (newReluConstraint 1 2 3))) = Inr False"
  using satisfied_decision [of "notifyVariableValue 2 5 (notifyVariableValue 1 3 (newReluConstraint 1 2 3))"
      3 5 exampleFloatUtils]
  by (simp add: notifyVariableValue_simps newReluConstraint_simps exampleFloatUtils_simps)

subsection \<open>Missing values\<close>

text \<open>
  Claim C8. When \<open>b\<close> or \<open>f\<close> has no cached value, \<open>satisfied()\<close> and
  \<open>getPossibleFixes()\<close> both fail with the error \<open>PARTICIPATING_VARIABLES_ABSENT\<close> (the
  latter while it evaluates its assertion \<open>!satisfied()\<close>); in particular \<open>satisfied()\<close>
  fails so after any sequence of calls on a new constraint that holds no value notification.
\<close>

theorem missing_assignment_surfaced:
  "(m_assignment c (m_b c) = None \<or> m_assignment c (m_f c) = None \<longrightarrow>
      satisfied fu c = Inl PARTICIPATING_VARIABLES_ABSENT \<and>
      getPossibleFixes fu c = Inl PARTICIPATING_VARIABLES_ABSENT) \<and>
   (run fu xs (fresh b f a T) = Inr (rs, s) \<and> (\<forall>x\<in>set xs. \<not> isValueNotification x) \<longrightarrow>
      exec fu Satisfied s = Inl PARTICIPATING_VARIABLES_ABSENT)"
proof (intro conjI impI)
  assume "m_assignment c (m_b c) = None \<or> m_assignment c (m_f c) = None"
  then show "satisfied fu c = Inl PARTICIPATING_VARIABLES_ABSENT"
    and "getPossibleFixes fu c = Inl PARTICIPATING_VARIABLES_ABSENT"
    by (simp_all add: satisfied_None getPossibleFixes_None)
next
  assume "run fu xs (fresh b f a T) = Inr (rs, s) \<and> (\<forall>x\<in>set xs. \<not> isValueNotification x)"
  then have "m_assignment (constraint s) = Map.empty"
    using run_assignment [of fu xs "fresh b f a T" rs s]
    by (simp add: fresh_def newReluConstraint_simps)
  then show "exec fu Satisfied s = Inl PARTICIPATING_VARIABLES_ABSENT"
    by (simp add: answer_def satisfied_None)
qed

text \<open>Only \<open>b\<close> has a value; and a sequence of calls without a value notification.\<close>

theorem missing_assignment_surfaced_witness:
  "(m_assignment (notifyVariableValue 1 3 (newReluConstraint 1 2 3))
        (m_b (notifyVariableValue 1 3 (newReluConstraint 1 2 3))) = None \<or>
    m_assignment (notifyVariableValue 1 3 (newReluConstraint 1 2 3))
        (m_f (notifyVariableValue 1 3 (newReluConstraint 1 2 3))) = None) \<and>
   satisfied exampleFloatUtils (notifyVariableValue 1 3 (newReluConstraint 1 2 3)) =
     Inl PARTICIPATING_VARIABLES_ABSENT \<and>
   getPossibleFixes exampleFloatUtils (notifyVariableValue 1 3 (newReluConstraint 1 2 3)) =
     Inl PARTICIPATING_VARIABLES_ABSENT \<and>
   \<not> isl (run exampleFloatUtils [RegisterAsWatcher 0, NotifyLowerBound 1 1]
            (fresh 1 2 3 noTableaux)) \<and>
   exec exampleFloatUtils Satisfied
     (snd (projr (run exampleFloatUtils [RegisterAsWatcher 0, NotifyLowerBound 1 1]
                    (fresh 1 2 3 noTableaux)))) =
     Inl PARTICIPATING_VARIABLES_ABSENT"
proof -
  let ?c = "notifyVariableValue 1 3 (newReluConstraint 1 2 3)"
  let ?xs = "[RegisterAsWatcher 0, NotifyLowerBound 1 1]"
  let ?r = "run exampleFloatUtils ?xs (fresh 1 2 3 noTableaux)"
  have missing: "m_assignment ?c (m_b ?c) = None \<or> m_assignment ?c (m_f ?c) = None"
    by (simp add: notifyVariableValue_simps newReluConstraint_simps)
  have ok: "\<not> isl ?r"
    by (simp add: eval_simps)
  then have r: "?r = Inr (fst (projr ?r), snd (projr ?r))"
    by simp
  from missing_assignment_surfaced [of ?c exampleFloatUtils ?xs 1 2 3 noTableaux
      "fst (projr ?r)" "snd (projr ?r)"] missing r ok
  show ?thesis by simp
qed

subsection \<open>The proposed fixes\<close>

text \<open>
  Claim C5. For a violating cached assignment with \<open>f\<close> not negative, exactly one of
  the three shapes of the table holds, and \<open>getPossibleFixes()\<close> returns the two fixes of
  that shape's row, in the order of the table.
\<close>

theorem fixes_follow_table:
  assumes "m_assignment c (m_b c) = Some bValue"
    and "m_assignment c (m_f c) = Some fValue"
    and "\<not> isNegative fu fValue"
    and "satisfied fu c = Inr False"
  shows "(\<exists>!sh. hasShape fu bValue fValue sh) \<and>
         (\<forall>sh. hasShape fu bValue fValue sh \<longrightarrow>
            getPossibleFixes fu c = Inr (tableFixes sh (m_b c) (m_f c) bValue fValue))"
proof -
  from assms have viol:
    "if isPositive fu fValue then \<not> areEqual fu bValue fValue else isPositive fu bValue"
    by (simp add: satisfied_Some split: if_splits)
  have result: "getPossibleFixes fu c =
     Inr (if isPositive fu fValue
          then (if isPositive fu bValue
                then [Fix (m_b c) fValue, Fix (m_f c) bValue]
                else [Fix (m_b c) fValue, Fix (m_f c) 0])
          else [Fix (m_b c) 0, Fix (m_f c) bValue])"
    using assms by (simp add: getPossibleFixes_violated)
  have table: "getPossibleFixes fu c = Inr (tableFixes sh (m_b c) (m_f c) bValue fValue)"
    if "hasShape fu bValue fValue sh" for sh
    using that by (cases sh) (simp_all add: result)
  have ex: "\<exists>sh. hasShape fu bValue fValue sh"
  proof (cases "isPositive fu fValue")
    case True
    with viol have "hasShape fu bValue fValue
        (if isPositive fu bValue then BothPositiveUnequal else PositiveOutputNonPositiveInput)"
      by simp
    then show ?thesis ..
  next
    case False
    with viol assms(3) have "hasShape fu bValue fValue ZeroOutputPositiveInput" by simp
    then show ?thesis ..
  qed
  have uniq: "sh = sh'" if "hasShape fu bValue fValue sh" "hasShape fu bValue fValue sh'" for sh sh'
    using that by (cases sh; cases sh') simp_all
  from ex uniq table show ?thesis by blast
qed

text \<open>Values \<open>b = 3\<close>, \<open>f = 5\<close>: both positive and unequal; the fixes are \<open>[(b, 5), (f, 3)]\<close>.\<close>

theorem fixes_follow_table_witness:
  "m_assignment exampleConstraint (m_b exampleConstraint) = Some 3 \<and>
   m_assignment exampleConstraint (m_f exampleConstraint) = Some 5 \<and>
   \<not> isNegative exampleFloatUtils 5 \<and>
   satisfied exampleFloatUtils exampleConstraint = Inr False \<and>
   hasShape exampleFloatUtils 3 5 BothPositiveUnequal \<and>
   getPossibleFixes exampleFloatUtils exampleConstraint = Inr [Fix 1 5, Fix 2 3]"
proof -
  have h: "m_assignment exampleConstraint (m_b exampleConstraint) = Some 3"
    "m_assignment exampleConstraint (m_f exampleConstraint) = Some 5"
    "\<not> isNegative exampleFloatUtils 5"
    "satisfied exampleFloatUtils exampleConstraint = Inr False"
    by (simp_all add: exampleConstraint_simps exampleFloatUtils_simps exampleConstraint_violated)
  have sh: "hasShape exampleFloatUtils 3 5 BothPositiveUnequal"
    by (simp add: exampleFloatUtils_simps)
  from fixes_follow_table [OF h] sh
  have "getPossibleFixes exampleFloatUtils exampleConstraint =
      Inr (tableFixes BothPositiveUnequal (m_b exampleConstraint) (m_f exampleConstraint) 3 5)"
    by blast
  with h sh show ?thesis by (simp add: exampleConstraint_simps)
qed

text \<open>
  Claim C4. When \<open>satisfied()\<close> is false (so both values are cached and \<open>f\<close> is not
  negative), \<open>getPossibleFixes()\<close> returns exactly two fixes, and after applying either of
  them \<open>satisfied()\<close> is true. The comparisons of \<open>FloatUtils\<close> are assumed coherent, as
  the tolerance comparisons are for every tolerance that is not negative.
\<close>

theorem fixes_repair:
  assumes "coherent fu" and "satisfied fu c = Inr False"
  shows "\<exists>fix1 fix2. getPossibleFixes fu c = Inr [fix1, fix2] \<and>
           satisfied fu (applyFix fix1 c) = Inr True \<and>
           satisfied fu (applyFix fix2 c) = Inr True"
proof -
  from assms(2) obtain bValue fValue where
    b: "m_assignment c (m_b c) = Some bValue" and f: "m_assignment c (m_f c) = Some fValue"
    and nonneg: "\<not> isNegative fu fValue"
    by (rule satisfied_Inr_cached)
  from assms(1) have refl: "\<And>x. isPositive fu x \<Longrightarrow> areEqual fu x x"
    and pos: "\<And>x. isPositive fu x \<Longrightarrow> \<not> isNegative fu x"
    and zero: "\<not> isPositive fu 0" "\<not> isNegative fu 0"
    by (simp_all add: coherent_def)
  have distinct: "m_b c \<noteq> m_f c"
  proof
    assume "m_b c = m_f c"
    with b f have "bValue = fValue" by simp
    with assms(2) b f nonneg refl show False
      by (simp add: satisfied_Some split: if_splits)
  qed
  from assms(2) b f nonneg have viol:
    "if isPositive fu fValue then \<not> areEqual fu bValue fValue else isPositive fu bValue"
    by (simp add: satisfied_Some split: if_splits)
  have setb: "satisfied fu (notifyVariableValue (m_b c) v c) =
      (if isPositive fu fValue then Inr (areEqual fu v fValue) else Inr (\<not> isPositive fu v))" for v
    using f nonneg distinct
    by (subst satisfied_Some [where bValue = v and fValue = fValue])
       (auto simp: notifyVariableValue_simps)
  have setf: "satisfied fu (notifyVariableValue (m_f c) v c) =
      (if isNegative fu v then Inl ASSERTION_VIOLATION
       else if isPositive fu v then Inr (areEqual fu bValue v) else Inr (\<not> isPositive fu bValue))" for v
    using b distinct
    by (subst satisfied_Some [where bValue = bValue and fValue = v])
       (auto simp: notifyVariableValue_simps)
  show ?thesis
  proof (cases "isPositive fu fValue")
    case fpos: True
    show ?thesis
    proof (cases "isPositive fu bValue")
      case True
      with fpos have "getPossibleFixes fu c = Inr [Fix (m_b c) fValue, Fix (m_f c) bValue]"
        using assms(2) b f by (simp add: getPossibleFixes_violated)
      moreover have "satisfied fu (applyFix (Fix (m_b c) fValue) c) = Inr True"
        using fpos refl by (simp add: setb)
      moreover have "satisfied fu (applyFix (Fix (m_f c) bValue) c) = Inr True"
        using True refl pos by (simp add: setf)
      ultimately show ?thesis by blast
    next
      case False
      with fpos have "getPossibleFixes fu c = Inr [Fix (m_b c) fValue, Fix (m_f c) 0]"
        using assms(2) b f by (simp add: getPossibleFixes_violated)
      moreover have "satisfied fu (applyFix (Fix (m_b c) fValue) c) = Inr True"
        using fpos refl by (simp add: setb)
      moreover have "satisfied fu (applyFix (Fix (m_f c) 0) c) = Inr True"
        using False zero by (simp add: setf)
      ultimately show ?thesis by blast
    qed
  next
    case False
    with viol have bpos: "isPositive fu bValue" by simp
    from False have "getPossibleFixes fu c = Inr [Fix (m_b c) 0, Fix (m_f c) bValue]"
      using assms(2) b f by (simp add: getPossibleFixes_violated)
    moreover have "satisfied fu (applyFix (Fix (m_b c) 0) c) = Inr True"
      using False zero by (simp add: setb)
    moreover have "satisfied fu (applyFix (Fix (m_f c) bValue) c) = Inr True"
      using bpos refl pos by (simp add: setf)
    ultimately show ?thesis by blast
  qed
qed

text \<open>Values \<open>b = 3\<close>, \<open>f = 5\<close>: each of the two fixes repairs the violation.\<close>

theorem fixes_repair_witness:
  "satisfied exampleFloatUtils exampleConstraint = Inr False \<and>
   getPossibleFixes exampleFloatUtils exampleConstraint = Inr [Fix 1 5, Fix 2 3] \<and>
   satisfied exampleFloatUtils (applyFix (Fix 1 5) exampleConstraint) = Inr True \<and>
   satisfied exampleFloatUtils (applyFix (Fix 2 3) exampleConstraint) = Inr True"
proof -
  have result: "getPossibleFixes exampleFloatUtils exampleConstraint = Inr [Fix 1 5, Fix 2 3]"
    by (simp add: getPossibleFixes_violated [where bValue = 3 and fValue = 5]
          exampleConstraint_violated exampleConstraint_simps exampleFloatUtils_simps)
  from fixes_repair [OF exampleFloatUtils_coherent exampleConstraint_violated] result
  show ?thesis
    by (simp add: exampleFloatUtils_coherent exampleConstraint_violated)
qed

subsection \<open>Value notifications for other variables\<close>

text \<open>
  Claim C7, as amended. \<open>notifyVariableValue(v, value)\<close> records the value for every
  variable id \<open>v\<close>. For \<open>v\<close> other than \<open>b\<close> and \<open>f\<close> it changes the entry of \<open>v\<close> in the value
  cache and nothing else: the cached values of \<open>b\<close> and \<open>f\<close>, the bounds, the valid splits
  and the tableau pointer stay as they are, and so do the results of \<open>satisfied()\<close>,
  \<open>getPossibleFixes()\<close> and \<open>getCaseSplits()\<close>.
\<close>

theorem notifyVariableValue_other_variable:
  assumes "var \<noteq> m_b c" and "var \<noteq> m_f c"
  shows "m_assignment (notifyVariableValue var val c) = (m_assignment c)(var \<mapsto> val) \<and>
         m_assignment (notifyVariableValue var val c) (m_b c) = m_assignment c (m_b c) \<and>
         m_assignment (notifyVariableValue var val c) (m_f c) = m_assignment c (m_f c) \<and>
         m_lowerBounds (notifyVariableValue var val c) = m_lowerBounds c \<and>
         m_upperBounds (notifyVariableValue var val c) = m_upperBounds c \<and>
         m_validSplits (notifyVariableValue var val c) = m_validSplits c \<and>
         m_tableau (notifyVariableValue var val c) = m_tableau c \<and>
         satisfied fu (notifyVariableValue var val c) = satisfied fu c \<and>
         getPossibleFixes fu (notifyVariableValue var val c) = getPossibleFixes fu c \<and>
         getCaseSplits (notifyVariableValue var val c) = getCaseSplits c"
proof -
  have same: "m_b (notifyVariableValue var val c) = m_b c"
    "m_f (notifyVariableValue var val c) = m_f c"
    "m_assignment (notifyVariableValue var val c) (m_b c) = m_assignment c (m_b c)"
    "m_assignment (notifyVariableValue var val c) (m_f c) = m_assignment c (m_f c)"
    using assms by (simp_all add: notifyVariableValue_simps)
  from same have "satisfied fu (notifyVariableValue var val c) = satisfied fu c"
    by (rule queries_depend_on)
  moreover from same
  have "getPossibleFixes fu (notifyVariableValue var val c) = getPossibleFixes fu c"
    by (rule queries_depend_on)
  ultimately show ?thesis
    using same by (simp add: notifyVariableValue_simps getCaseSplits_def)
qed

text \<open>A value for variable 7 beside the constraint on variables 1 and 2.\<close>

theorem notifyVariableValue_other_variable_witness:
  "(7 :: variable) \<noteq> m_b exampleConstraint \<and> 7 \<noteq> m_f exampleConstraint \<and>
   m_assignment (notifyVariableValue 7 1 exampleConstraint) 7 = Some 1 \<and>
   m_assignment (notifyVariableValue 7 1 exampleConstraint) 1 = Some 3 \<and>
   satisfied exampleFloatUtils (notifyVariableValue 7 1 exampleConstraint) = Inr False"
  using notifyVariableValue_other_variable [of 7 exampleConstraint 1 exampleFloatUtils]
  by (simp add: exampleConstraint_simps exampleConstraint_violated)

text \<open>
  Claim C7 as stated fails: a value notified for variable 7, which is neither \<open>b\<close> nor
  \<open>f\<close>, is recorded in the cache, and the constraint is not what it was.
\<close>

theorem notifyVariableValue_noop_counterexample:
  "(7 :: variable) \<noteq> m_b (newReluConstraint 1 2 3) \<and> 7 \<noteq> m_f (newReluConstraint 1 2 3) \<and>
   m_assignment (newReluConstraint 1 2 3) 7 = None \<and>
   m_assignment (notifyVariableValue 7 1 (newReluConstraint 1 2 3)) 7 = Some 1 \<and>
   notifyVariableValue 7 1 (newReluConstraint 1 2 3) \<noteq> newReluConstraint 1 2 3"
proof -
  have a: "m_assignment (newReluConstraint 1 2 3) 7 = None"
    and b: "m_assignment (notifyVariableValue 7 1 (newReluConstraint 1 2 3)) 7 = Some 1"
    by (simp_all add: notifyVariableValue_simps newReluConstraint_simps)
  then have "notifyVariableValue 7 1 (newReluConstraint 1 2 3) \<noteq> newReluConstraint 1 2 3"
    by auto
  with a b show ?thesis by (simp add: newReluConstraint_simps)
qed

subsection \<open>The valid splits along a sequence of calls\<close>

text \<open>
  Claim C6. A new constraint has both phases valid (and they are two different phases).
  After any sequence of calls on it the valid splits are not empty; a further call
  leaves them as they are or makes them a single split; and along any further sequence
  of calls their number does not grow.
\<close>

theorem validSplits_shrink_never_empty:
  "m_validSplits (newReluConstraint b f a) = [activePhase b f a, inactivePhase b f a] \<and>
   activePhase b f a \<noteq> inactivePhase b f a \<and>
   (run fu xs (fresh b f a T) = Inr (rs, s) \<longrightarrow>
      m_validSplits (constraint s) \<noteq> [] \<and>
      (exec fu x s = Inr (r, s') \<longrightarrow>
         m_validSplits (constraint s') \<noteq> [] \<and>
         (m_validSplits (constraint s') = m_validSplits (constraint s) \<or>
          length (m_validSplits (constraint s')) = 1)) \<and>
      (run fu ys s = Inr (rs'', s'') \<longrightarrow>
         m_validSplits (constraint s'') \<noteq> [] \<and>
         length (m_validSplits (constraint s'')) \<le> length (m_validSplits (constraint s))))"
proof (intro conjI impI)
  show "m_validSplits (newReluConstraint b f a) = [activePhase b f a, inactivePhase b f a]"
    by (simp add: newReluConstraint_simps)
  show "activePhase b f a \<noteq> inactivePhase b f a"
    by (rule phases_differ)
next
  assume reach: "run fu xs (fresh b f a T) = Inr (rs, s)"
  then have wf: "wellFormed b f a s"
    using wellFormed_fresh by (rule run_wellFormed)
  then show "m_validSplits (constraint s) \<noteq> []"
    by (simp add: wellFormed_def)
  {
    assume step: "exec fu x s = Inr (r, s')"
    from exec_wellFormed [OF step wf] show "m_validSplits (constraint s') \<noteq> []"
      by (simp add: wellFormed_def)
    from exec_validSplits [OF step]
    show "m_validSplits (constraint s') = m_validSplits (constraint s) \<or>
          length (m_validSplits (constraint s')) = 1"
      by (simp split: option.splits)
  }
  {
    assume later: "run fu ys s = Inr (rs'', s'')"
    from run_wellFormed [OF later wf] show "m_validSplits (constraint s'') \<noteq> []"
      by (simp add: wellFormed_def)
    from later wf
    show "length (m_validSplits (constraint s'')) \<le> length (m_validSplits (constraint s))"
      by (rule run_length_validSplits)
  }
qed

text \<open>
  Registering leaves both phases valid; a lower bound 1 on \<open>b\<close> leaves the active phase;
  a lower bound on \<open>f\<close> and then an upper bound \<open>-1\<close> on \<open>f\<close> leave the inactive phase.
\<close>

theorem validSplits_shrink_never_empty_witness:
  "validSplitsAfter (run exampleFloatUtils [RegisterAsWatcher 0] (fresh 1 2 3 noTableaux)) =
     Some [activePhase 1 2 3, inactivePhase 1 2 3] \<and>
   validSplitsAfter (exec exampleFloatUtils (NotifyLowerBound 1 1)
     (snd (projr (run exampleFloatUtils [RegisterAsWatcher 0] (fresh 1 2 3 noTableaux))))) =
     Some [activePhase 1 2 3] \<and>
   validSplitsAfter (run exampleFloatUtils [NotifyLowerBound 2 4, NotifyUpperBound 2 (- 1)]
     (snd (projr (run exampleFloatUtils [RegisterAsWatcher 0] (fresh 1 2 3 noTableaux))))) =
     Some [inactivePhase 1 2 3]"
proof -
  let ?r = "run exampleFloatUtils [RegisterAsWatcher 0] (fresh 1 2 3 noTableaux)"
  let ?s = "snd (projr ?r)"
  let ?e = "exec exampleFloatUtils (NotifyLowerBound 1 1) ?s"
  let ?l = "run exampleFloatUtils [NotifyLowerBound 2 4, NotifyUpperBound 2 (- 1)] ?s"
  have r: "\<not> isl ?r" by (simp add: eval_simps)
  have e: "\<not> isl ?e" by (simp add: eval_simps)
  have l: "\<not> isl ?l" by (simp add: eval_simps)
  have v: "validSplitsAfter ?r = Some [activePhase 1 2 3, inactivePhase 1 2 3]"
    "validSplitsAfter ?e = Some [activePhase 1 2 3]"
    "validSplitsAfter ?l = Some [inactivePhase 1 2 3]"
    by (simp_all add: eval_simps)
  from validSplits_shrink_never_empty [of 1 2 3 exampleFloatUtils "[RegisterAsWatcher 0]"
      noTableaux "fst (projr ?r)" ?s "NotifyLowerBound 1 1" "fst (projr ?e)" "snd (projr ?e)"
      "[NotifyLowerBound 2 4, NotifyUpperBound 2 (- 1)]" "fst (projr ?l)" "snd (projr ?l)"]
    Inr_projr_pair [OF r] Inr_projr_pair [OF e] Inr_projr_pair [OF l]
  have "m_validSplits (constraint (snd (projr ?l))) \<noteq> []" by simp
  with v show ?thesis by simp
qed

subsection \<open>Repeated collapsing notifications\<close>

text \<open>
  Claim C2, as amended. When the phase of a collapsing notification is already the only
  valid split, the notification leaves the valid splits as they are and applies the phase
  to the tableau once more: the tableau of the constraint receives exactly one further
  \<open>applySplit\<close> call, for that phase, and no other tableau changes. After registering a new
  constraint, a single strictly positive lower bound on \<open>b\<close> or \<open>f\<close> makes the active
  phase the only valid split and the tableau receives exactly one \<open>applySplit\<close> call, for
  the active phase.
\<close>

theorem requalifying_notification_applies_again:
  "(run fu xs (fresh b f a T) = Inr (rs, s) \<and> collapse fu b f x = Some k \<and>
    m_validSplits (constraint s) = [[activePhase b f a, inactivePhase b f a] ! k] \<and>
    exec fu x s = Inr (r, s') \<longrightarrow>
      m_validSplits (constraint s') = m_validSplits (constraint s) \<and>
      (\<exists>t. m_tableau (constraint s) = Some t \<and>
           appliedSplits (tableaux s' t) =
             appliedSplits (tableaux s t) @ [[activePhase b f a, inactivePhase b f a] ! k] \<and>
           (\<forall>t'. t' \<noteq> t \<longrightarrow> tableaux s' t' = tableaux s t'))) \<and>
   ((var = b \<or> var = f) \<and> isPositive fu bound \<longrightarrow>
      validSplitsAfter (run fu [RegisterAsWatcher t0, NotifyLowerBound var bound] (fresh b f a T)) =
        Some [activePhase b f a] \<and>
      appliedSplitsAfter t0 (run fu [RegisterAsWatcher t0, NotifyLowerBound var bound] (fresh b f a T)) =
        Some (appliedSplits (T t0) @ [activePhase b f a]))"
proof (intro conjI impI)
  assume h: "run fu xs (fresh b f a T) = Inr (rs, s) \<and> collapse fu b f x = Some k \<and>
    m_validSplits (constraint s) = [[activePhase b f a, inactivePhase b f a] ! k] \<and>
    exec fu x s = Inr (r, s')"
  then have wf: "wellFormed b f a s"
    using run_wellFormed [OF _ wellFormed_fresh] by blast
  then have same: "m_b (constraint s) = b" "m_f (constraint s) = f"
    "m_splits (constraint s) = [activePhase b f a, inactivePhase b f a]"
    by (simp_all add: wellFormed_def)
  from h have step: "exec fu x s = Inr (r, s')" and k: "collapse fu b f x = Some k"
    and v: "m_validSplits (constraint s) = [[activePhase b f a, inactivePhase b f a] ! k]"
    by simp_all
  from exec_validSplits [OF step] k v same
  show "m_validSplits (constraint s') = m_validSplits (constraint s)" by simp
  from exec_applied [OF step] k same
  show "\<exists>t. m_tableau (constraint s) = Some t \<and>
           appliedSplits (tableaux s' t) =
             appliedSplits (tableaux s t) @ [[activePhase b f a, inactivePhase b f a] ! k] \<and>
           (\<forall>t'. t' \<noteq> t \<longrightarrow> tableaux s' t' = tableaux s t')"
    by (auto simp: applySplit_def)
next
  assume "(var = b \<or> var = f) \<and> isPositive fu bound"
  then show "validSplitsAfter (run fu [RegisterAsWatcher t0, NotifyLowerBound var bound] (fresh b f a T)) =
        Some [activePhase b f a]"
    and "appliedSplitsAfter t0 (run fu [RegisterAsWatcher t0, NotifyLowerBound var bound] (fresh b f a T)) =
        Some (appliedSplits (T t0) @ [activePhase b f a])"
    by (auto simp: fresh_def newReluConstraint_simps registerAsWatcher_def notifyLowerBound_def
          stuckInPhase_def elementAt_def applySplit_def registerToWatchVariable_def
          finished_def Let_def validSplitsAfter_def appliedSplitsAfter_def)
qed

text \<open>
  A lower bound 1 on \<open>b\<close> after registering, then a lower bound 4 on \<open>f\<close>: the active
  phase stays the only valid split and is applied a second time.
\<close>

theorem requalifying_notification_applies_again_witness:
  "collapse exampleFloatUtils 1 2 (NotifyLowerBound 2 4) = Some 0 \<and>
   validSplitsAfter (run exampleFloatUtils [RegisterAsWatcher 0, NotifyLowerBound 1 1]
     (fresh 1 2 3 noTableaux)) = Some [activePhase 1 2 3] \<and>
   appliedSplitsAfter 0 (run exampleFloatUtils [RegisterAsWatcher 0, NotifyLowerBound 1 1]
     (fresh 1 2 3 noTableaux)) = Some [activePhase 1 2 3] \<and>
   validSplitsAfter (exec exampleFloatUtils (NotifyLowerBound 2 4)
     (snd (projr (run exampleFloatUtils [RegisterAsWatcher 0, NotifyLowerBound 1 1]
        (fresh 1 2 3 noTableaux))))) = Some [activePhase 1 2 3] \<and>
   appliedSplitsAfter 0 (exec exampleFloatUtils (NotifyLowerBound 2 4)
     (snd (projr (run exampleFloatUtils [RegisterAsWatcher 0, NotifyLowerBound 1 1]
        (fresh 1 2 3 noTableaux))))) = Some [activePhase 1 2 3, activePhase 1 2 3]"
proof -
  let ?xs = "[RegisterAsWatcher 0, NotifyLowerBound 1 1]"
  let ?r = "run exampleFloatUtils ?xs (fresh 1 2 3 noTableaux)"
  let ?s = "snd (projr ?r)"
  let ?e = "exec exampleFloatUtils (NotifyLowerBound 2 4) ?s"
  have r: "\<not> isl ?r" by (simp add: eval_simps)
  have e: "\<not> isl ?e" by (simp add: eval_simps)
  have k: "collapse exampleFloatUtils 1 2 (NotifyLowerBound 2 4) = Some 0"
    by (simp add: exampleFloatUtils_simps)
  have pos: "((1::variable) = 1 \<or> (1::variable) = 2) \<and> isPositive exampleFloatUtils 1"
    by (simp add: exampleFloatUtils_simps)
  have t: "m_tableau (constraint ?s) = Some 0" by (simp add: eval_simps)
  note inst = requalifying_notification_applies_again [of exampleFloatUtils ?xs 1 2 3 noTableaux
      "fst (projr ?r)" ?s "NotifyLowerBound 2 4" 0 "fst (projr ?e)" "snd (projr ?e)" 1 1 0]
  from inst pos have first:
    "validSplitsAfter ?r = Some [activePhase 1 2 3]"
    "appliedSplitsAfter 0 ?r = Some [activePhase 1 2 3]"
    by (simp_all add: noTableaux_def)
  with r have s: "m_validSplits (constraint ?s) = [activePhase 1 2 3]"
    "appliedSplits (tableaux ?s 0) = [activePhase 1 2 3]"
    by (simp_all add: validSplitsAfter_projr appliedSplitsAfter_projr)
  from inst Inr_projr_pair [OF r] Inr_projr_pair [OF e] k s t
  have "m_validSplits (constraint (snd (projr ?e))) = [activePhase 1 2 3]"
    "appliedSplits (tableaux (snd (projr ?e)) 0) = [activePhase 1 2 3, activePhase 1 2 3]"
    by simp_all
  with e have "validSplitsAfter ?e = Some [activePhase 1 2 3]"
    "appliedSplitsAfter 0 ?e = Some [activePhase 1 2 3, activePhase 1 2 3]"
    by (simp_all add: validSplitsAfter_projr appliedSplitsAfter_projr)
  with k first show ?thesis by simp
qed

text \<open>
  Claim C2 as stated fails: with the active phase already the only valid split, a second
  lower bound 1 on \<open>b\<close> applies the active phase to the tableau a second time.
\<close>

theorem no_reapplication_counterexample:
  "validSplitsAfter (run exampleFloatUtils [RegisterAsWatcher 0, NotifyLowerBound 1 1]
     (fresh 1 2 3 noTableaux)) = Some [activePhase 1 2 3] \<and>
   appliedSplitsAfter 0 (run exampleFloatUtils [RegisterAsWatcher 0, NotifyLowerBound 1 1]
     (fresh 1 2 3 noTableaux)) = Some [activePhase 1 2 3] \<and>
   isPositive exampleFloatUtils 1 \<and>
   validSplitsAfter (run exampleFloatUtils
     [RegisterAsWatcher 0, NotifyLowerBound 1 1, NotifyLowerBound 1 1]
     (fresh 1 2 3 noTableaux)) = Some [activePhase 1 2 3] \<and>
   appliedSplitsAfter 0 (run exampleFloatUtils
     [RegisterAsWatcher 0, NotifyLowerBound 1 1, NotifyLowerBound 1 1]
     (fresh 1 2 3 noTableaux)) = Some [activePhase 1 2 3, activePhase 1 2 3]"
  by (simp add: eval_simps)

subsection \<open>After a strictly positive lower bound\<close>

text \<open>
  Claim C3, as amended. Once a strictly positive lower bound is notified for \<open>b\<close> or
  \<open>f\<close>, the active phase is the only valid split, and it remains so after every later
  sequence of calls in which no strictly negative upper bound is notified for \<open>f\<close>; after
  a later sequence that ends with a strictly negative upper bound for \<open>f\<close>, the inactive
  phase is the only valid split.
\<close>

theorem active_until_negative_upper_bound:
  assumes "run fu xs (fresh b f a T) = Inr (rs, s)"
    and "var = b \<or> var = f" and "isPositive fu bound"
    and "run fu (NotifyLowerBound var bound # ys) s = Inr (rs', s')"
  shows "((\<forall>y\<in>set ys. collapse fu b f y \<noteq> Some 1) \<longrightarrow>
            m_validSplits (constraint s') = [activePhase b f a]) \<and>
         (\<forall>ys' bound'. ys = ys' @ [NotifyUpperBound f bound'] \<and> isNegative fu bound' \<longrightarrow>
            m_validSplits (constraint s') = [inactivePhase b f a])"
proof (intro conjI allI impI)
  from assms(1) have wf: "wellFormed b f a s"
    using wellFormed_fresh by (rule run_wellFormed)
  then have same: "m_b (constraint s) = b" "m_f (constraint s) = f"
    "m_splits (constraint s) = [activePhase b f a, inactivePhase b f a]"
    by (simp_all add: wellFormed_def)
  from run_validSplits [OF assms(4)] assms(2,3) same
  have valid: "m_validSplits (constraint s') =
      [[activePhase b f a, inactivePhase b f a] ! last (0 # collapses fu b f ys)]"
    by simp
  {
    assume none: "\<forall>y\<in>set ys. collapse fu b f y \<noteq> Some 1"
    have zero: "k = 0" if "k \<in> set (collapses fu b f ys)" for k
    proof -
      from that obtain y where y: "y \<in> set ys" "collapse fu b f y = Some k"
        by (blast dest: collapses_set)
      with none have "k \<noteq> 1" by auto
      with collapse_range [OF y(2)] show ?thesis by simp
    qed
    have "last (0 # collapses fu b f ys) = 0"
    proof (cases "collapses fu b f ys = []")
      case True
      then show ?thesis by simp
    next
      case False
      then have "last (collapses fu b f ys) \<in> set (collapses fu b f ys)" by simp
      with False zero show ?thesis by simp
    qed
    with valid show "m_validSplits (constraint s') = [activePhase b f a]"
      by simp
  }
  {
    fix ys' bound'
    assume "ys = ys' @ [NotifyUpperBound f bound'] \<and> isNegative fu bound'"
    then have "collapses fu b f ys = collapses fu b f ys' @ [1]"
      by (simp add: collapses_append)
    then have "last (0 # collapses fu b f ys) = 1"
      by simp
    with valid show "m_validSplits (constraint s') = [inactivePhase b f a]"
      by simp
  }
qed

text \<open>
  A lower bound 1 on \<open>b\<close>, then a negative upper bound on \<open>b\<close> (not on \<open>f\<close>), a value
  and a lower bound that is not positive: the active phase remains the only valid split.
  A lower bound 1 on \<open>b\<close>, then a value and a negative upper bound on \<open>f\<close>: the inactive
  phase is the only valid split.
\<close>

theorem active_until_negative_upper_bound_witness:
  "((1::variable) = 1 \<or> (1::variable) = 2) \<and> isPositive exampleFloatUtils 1 \<and>
   collapses exampleFloatUtils 1 2
     [NotifyUpperBound 1 (- 1), NotifyVariableValue 2 5, NotifyLowerBound 2 0] = [] \<and>
   validSplitsAfter (run exampleFloatUtils
     [NotifyLowerBound 1 1, NotifyUpperBound 1 (- 1), NotifyVariableValue 2 5, NotifyLowerBound 2 0]
     (snd (projr (run exampleFloatUtils [RegisterAsWatcher 0] (fresh 1 2 3 noTableaux))))) =
     Some [activePhase 1 2 3] \<and>
   isNegative exampleFloatUtils (- 1) \<and>
   validSplitsAfter (run exampleFloatUtils
     [NotifyLowerBound 1 1, NotifyVariableValue 2 5, NotifyUpperBound 2 (- 1)]
     (snd (projr (run exampleFloatUtils [RegisterAsWatcher 0] (fresh 1 2 3 noTableaux))))) =
     Some [inactivePhase 1 2 3]"
proof -
  let ?r = "run exampleFloatUtils [RegisterAsWatcher 0] (fresh 1 2 3 noTableaux)"
  let ?s = "snd (projr ?r)"
  let ?ys = "[NotifyUpperBound 1 (- 1), NotifyVariableValue 2 5, NotifyLowerBound 2 0]"
  let ?l = "run exampleFloatUtils (NotifyLowerBound 1 1 # ?ys) ?s"
  let ?zs = "[NotifyVariableValue 2 5, NotifyUpperBound 2 (- 1)]"
  let ?m = "run exampleFloatUtils (NotifyLowerBound 1 1 # ?zs) ?s"
  have r: "\<not> isl ?r" by (simp add: eval_simps)
  have l: "\<not> isl ?l" by (simp add: eval_simps)
  have m: "\<not> isl ?m" by (simp add: eval_simps)
  have pos: "(1::variable) = 1 \<or> (1::variable) = 2" "isPositive exampleFloatUtils 1"
    by (simp_all add: exampleFloatUtils_simps)
  have neg: "isNegative exampleFloatUtils (- 1)"
    by (simp add: exampleFloatUtils_simps)
  have ys: "\<forall>y\<in>set ?ys. collapse exampleFloatUtils 1 2 y \<noteq> Some 1"
    by (simp add: exampleFloatUtils_simps)
  have zs: "?zs = [NotifyVariableValue 2 5] @ [NotifyUpperBound 2 (- 1)]"
    by simp
  from active_until_negative_upper_bound
    [OF Inr_projr_pair [OF r] pos Inr_projr_pair [OF l]] ys
  have "m_validSplits (constraint (snd (projr ?l))) = [activePhase 1 2 3]"
    by blast
  with l have active: "validSplitsAfter ?l = Some [activePhase 1 2 3]"
    by (simp add: validSplitsAfter_projr)
  from active_until_negative_upper_bound
    [OF Inr_projr_pair [OF r] pos Inr_projr_pair [OF m]] zs neg
  have "m_validSplits (constraint (snd (projr ?m))) = [inactivePhase 1 2 3]"
    by blast
  with m have inactive: "validSplitsAfter ?m = Some [inactivePhase 1 2 3]"
    by (simp add: validSplitsAfter_projr)
  from pos neg active inactive show ?thesis
    by (simp add: exampleFloatUtils_simps)
qed

text \<open>
  Claim C3 as stated fails: after a lower bound 1 on \<open>b\<close>, an upper bound \<open>-1\<close> on \<open>f\<close>
  makes the inactive phase the only valid split.
\<close>

theorem active_forever_counterexample:
  "isPositive exampleFloatUtils 1 \<and>
   validSplitsAfter (run exampleFloatUtils [RegisterAsWatcher 0, NotifyLowerBound 1 1]
     (fresh 1 2 3 noTableaux)) = Some [activePhase 1 2 3] \<and>
   validSplitsAfter (run exampleFloatUtils
     [RegisterAsWatcher 0, NotifyLowerBound 1 1, NotifyUpperBound 2 (- 1)]
     (fresh 1 2 3 noTableaux)) = Some [inactivePhase 1 2 3] \<and>
   [inactivePhase 1 2 3] \<noteq> [activePhase 1 2 3]"
  using phases_differ [of 1 2 3] by (simp add: eval_simps)

subsection \<open>The case splits\<close>

text \<open>
  Claim C9. In every state \<open>getCaseSplits()\<close> returns the valid splits as they are and
  leaves the constraint and the tableaux as they were, whether or not any value is
  cached (a new constraint has none); any number of calls in a row return the same splits;
  and in every state reached from a new constraint there are one or two of them.
\<close>

theorem getCaseSplits_pure_read:
  "exec fu GetCaseSplits s = Inr (Splits (m_validSplits (constraint s)), s) \<and>
   run fu (replicate n GetCaseSplits) s =
     Inr (replicate n (Splits (m_validSplits (constraint s))), s) \<and>
   exec fu GetCaseSplits (fresh b f a T) =
     Inr (Splits [activePhase b f a, inactivePhase b f a], fresh b f a T) \<and>
   (run fu xs (fresh b f a T) = Inr (rs, s0) \<longrightarrow>
      length (getCaseSplits (constraint s0)) = 1 \<or> length (getCaseSplits (constraint s0)) = 2)"
proof (intro conjI impI)
  show "exec fu GetCaseSplits s = Inr (Splits (m_validSplits (constraint s)), s)"
    by (simp add: answer_def getCaseSplits_def)
  show "run fu (replicate n GetCaseSplits) s =
     Inr (replicate n (Splits (m_validSplits (constraint s))), s)"
    by (rule run_replicate_GetCaseSplits)
  show "exec fu GetCaseSplits (fresh b f a T) =
     Inr (Splits [activePhase b f a, inactivePhase b f a], fresh b f a T)"
    by (simp add: answer_def getCaseSplits_def fresh_def newReluConstraint_simps)
next
  assume "run fu xs (fresh b f a T) = Inr (rs, s0)"
  then have "wellFormed b f a s0"
    using wellFormed_fresh by (rule run_wellFormed)
  then have "m_validSplits (constraint s0) \<noteq> []"
    and "length (m_validSplits (constraint s0)) \<le> 2"
    by (simp_all add: wellFormed_def)
  then have "0 < length (m_validSplits (constraint s0))"
    and "length (m_validSplits (constraint s0)) \<le> 2"
    by simp_all
  then show "length (getCaseSplits (constraint s0)) = 1 \<or>
      length (getCaseSplits (constraint s0)) = 2"
    unfolding getCaseSplits_def by arith
qed

text \<open>One split after a collapse; two equal replies from two calls in a row.\<close>

theorem getCaseSplits_pure_read_witness:
  "\<not> isl (run exampleFloatUtils [RegisterAsWatcher 0, NotifyLowerBound 1 1] (fresh 1 2 3 noTableaux)) \<and>
   length (getCaseSplits (constraint (snd (projr
     (run exampleFloatUtils [RegisterAsWatcher 0, NotifyLowerBound 1 1]
        (fresh 1 2 3 noTableaux)))))) = 1 \<and>
   run exampleFloatUtils [GetCaseSplits, GetCaseSplits] (fresh 1 2 3 noTableaux) =
     Inr ([Splits [activePhase 1 2 3, inactivePhase 1 2 3],
           Splits [activePhase 1 2 3, inactivePhase 1 2 3]], fresh 1 2 3 noTableaux)"
proof -
  let ?xs = "[RegisterAsWatcher 0, NotifyLowerBound 1 1]"
  let ?r = "run exampleFloatUtils ?xs (fresh 1 2 3 noTableaux)"
  have r: "\<not> isl ?r" by (simp add: eval_simps)
  have len: "length (getCaseSplits (constraint (snd (projr ?r)))) \<noteq> 2"
    by (simp add: eval_simps getCaseSplits_def)
  have rep: "replicate 2 x = [x, x]" for x :: "'a"
    by (simp add: numeral_2_eq_2)
  from getCaseSplits_pure_read [of exampleFloatUtils "fresh 1 2 3 noTableaux" 2 1 2 3 noTableaux
      ?xs "fst (projr ?r)" "snd (projr ?r)"] Inr_projr_pair [OF r] r len
  show ?thesis
    by (simp add: rep fresh_def newReluConstraint_simps)
qed

text \<open>
  Claim C10. After a sequence of calls on a new constraint, \<open>getCaseSplits()\<close> returns
  the active phase followed by the inactive phase when no call of the sequence was a
  collapsing bound notification, and otherwise the single phase of the last collapsing
  notification.
\<close>

theorem getCaseSplits_order:
  assumes "run fu xs (fresh b f a T) = Inr (rs, s)"
  shows "(collapses fu b f xs = [] \<longrightarrow>
            getCaseSplits (constraint s) = [activePhase b f a, inactivePhase b f a]) \<and>
         (collapses fu b f xs \<noteq> [] \<and> last (collapses fu b f xs) = 0 \<longrightarrow>
            getCaseSplits (constraint s) = [activePhase b f a]) \<and>
         (collapses fu b f xs \<noteq> [] \<and> last (collapses fu b f xs) \<noteq> 0 \<longrightarrow>
            getCaseSplits (constraint s) = [inactivePhase b f a])"
proof -
  have range: "last (collapses fu b f xs) = 0 \<or> last (collapses fu b f xs) = 1"
    if "collapses fu b f xs \<noteq> []"
  proof -
    from that have "last (collapses fu b f xs) \<in> set (collapses fu b f xs)" by simp
    then obtain x where "collapse fu b f x = Some (last (collapses fu b f xs))"
      by (blast dest: collapses_set)
    then show ?thesis by (rule collapse_range)
  qed
  from run_validSplits [OF assms] range show ?thesis
    by (auto simp: getCaseSplits_def fresh_def newReluConstraint_simps)
qed

text \<open>A collapse to the active phase, followed by an upper bound that does not collapse.\<close>

theorem getCaseSplits_order_witness:
  "collapses exampleFloatUtils 1 2 [RegisterAsWatcher 0, NotifyLowerBound 1 1, NotifyUpperBound 2 5] = [0] \<and>
   \<not> isl (run exampleFloatUtils [RegisterAsWatcher 0, NotifyLowerBound 1 1, NotifyUpperBound 2 5]
            (fresh 1 2 3 noTableaux)) \<and>
   getCaseSplits (constraint (snd (projr
     (run exampleFloatUtils [RegisterAsWatcher 0, NotifyLowerBound 1 1, NotifyUpperBound 2 5]
        (fresh 1 2 3 noTableaux))))) = [activePhase 1 2 3]"
proof -
  let ?xs = "[RegisterAsWatcher 0, NotifyLowerBound 1 1, NotifyUpperBound 2 5]"
  let ?r = "run exampleFloatUtils ?xs (fresh 1 2 3 noTableaux)"
  have c: "collapses exampleFloatUtils 1 2 ?xs = [0]"
    by (simp add: exampleFloatUtils_simps)
  have r: "\<not> isl ?r" by (simp add: eval_simps)
  from getCaseSplits_order [OF Inr_projr_pair [OF r]] c r
  show ?thesis by simp
qed

end
